theory Spec2Isabelle
  imports Main "HOL-Library.Multiset"
begin

section \<open>Python values and errors\<close>

text \<open>
  The exceptions the modelled code can raise. \<open>IndexError\<close> is what \<open>batch[0]\<close> raises on an
  empty list, \<open>AttributeError\<close> what reading an attribute that was never assigned raises,
  \<open>ValueError\<close> what \<open>range\<close> raises for a zero step, \<open>TypeError\<close> an operation on a value of the
  wrong type, \<open>RuntimeError\<close> what torch raises (a shape that cannot be copied, a narrow out
  of range, a number that does not fit the tensor's 32-bit cells).
\<close>

datatype error = IndexError | AttributeError | ValueError | TypeError | RuntimeError

text \<open>
  Indexing a list, \<open>xs[i]\<close>: a negative index counts from the end, an index out of range
  raises \<open>IndexError\<close>.
\<close>

definition py_index :: "'a list \<Rightarrow> int \<Rightarrow> error + 'a" where
  "py_index xs i =
     (let n = int (length xs); j = (if i < 0 then i + n else i)
      in if 0 \<le> j \<and> j < n then Inr (xs ! nat j) else Inl IndexError)"

text \<open>
  Slicing, \<open>xs[lo:hi]\<close>: a negative bound counts from the end, and both bounds are clamped
  to the sequence; the slice is empty when the bounds cross.
\<close>

definition py_slice :: "'a list \<Rightarrow> int \<Rightarrow> int \<Rightarrow> 'a list" where
  "py_slice xs lo hi =
     (let n = int (length xs);
          a = (if lo < 0 then max (lo + n) 0 else min lo n);
          b = (if hi < 0 then max (hi + n) 0 else min hi n)
      in take (nat (b - a)) (drop (nat a) xs))"

text \<open>
  \<open>range(0, stop, step)\<close> as the list of its values: a zero step raises \<open>ValueError\<close>, a
  negative step gives the empty range (the start \<open>0\<close> is never above a \<open>stop\<close> that is a length).
\<close>

definition py_range0 :: "nat \<Rightarrow> int \<Rightarrow> error + nat list" where
  "py_range0 stop step =
     (if step = 0 then Inl ValueError
      else if step < 0 then Inr []
      else Inr (map (\<lambda>k. k * nat step) [0..<(stop + nat step - 1) div nat step]))"

text \<open>
  \<open>len(obj)\<close>, from the outcome of \<open>obj.__len__()\<close>: an exception of \<open>__len__\<close> propagates, and a
  negative result raises \<open>ValueError\<close>.
\<close>

definition py_len :: "error + int \<Rightarrow> error + nat" where
  "py_len r =
     (case r of
        Inl e \<Rightarrow> Inl e
      | Inr n \<Rightarrow> if n < 0 then Inl ValueError else Inr (nat n))"

section \<open>AudioDataset\<close>

text \<open>
  An instance is its attribute dictionary: a map from attribute names to values. Reading an
  attribute that no assignment has created raises \<open>AttributeError\<close>. The manifest and the
  featurizer are objects of classes outside the modelled files, kept as values of the type
  parameters \<open>'m\<close> and \<open>'f\<close>.
\<close>

datatype ('m, 'f) pyval =
    VManifest 'm
  | VLabelsMap "char \<rightharpoonup> int"
  | VFeaturizer 'f
  | VInt int
  | VSamples "(string \<times> string) list"

type_synonym ('m, 'f) pyobject = "string \<rightharpoonup> ('m, 'f) pyval"

definition getattr :: "('m, 'f) pyobject \<Rightarrow> string \<Rightarrow> error + ('m, 'f) pyval" where
  "getattr self name = (case self name of None \<Rightarrow> Inl AttributeError | Some v \<Rightarrow> Inr v)"

text \<open>
  \<^verbatim>\<open>dict([(labels[i], i) for i in range(len(labels))])\<close>: the pairs are stored one after the
  other, so a character that occurs twice in \<open>labels\<close> keeps its last index.
\<close>

definition labels_map_of :: "string \<Rightarrow> (char \<rightharpoonup> int)" where
  "labels_map_of labels =
     fold (\<lambda>i m. m(labels ! i \<mapsto> int i)) [0..<length labels] Map.empty"

text \<open>
  \<open>AudioDataset.__init__\<close>. The call \<open>Manifest(...)\<close> is outside the modelled files: its outcome
  \<open>manifest\<close> (the object, or the exception it raised) is a parameter. The constructor
  assigns \<open>manifest\<close>, \<open>labels_map\<close> and \<open>featurizer\<close>, and nothing else; the \<open>print\<close> between
  the assignments changes no attribute.
\<close>

definition AudioDataset_init :: "error + 'm \<Rightarrow> string \<Rightarrow> 'f \<Rightarrow> error + ('m, 'f) pyobject" where
  "AudioDataset_init manifest labels featurizer =
     (case manifest of
        Inl e \<Rightarrow> Inl e
      | Inr m \<Rightarrow>
          Inr (Map.empty(''manifest'' \<mapsto> VManifest m,
                         ''labels_map'' \<mapsto> VLabelsMap (labels_map_of labels),
                         ''featurizer'' \<mapsto> VFeaturizer featurizer)))"

text \<open>
  \<open>filter(None, ...)\<close> keeps the truthy items: it drops \<open>None\<close> (the character has no label)
  and the integer \<open>0\<close>.
\<close>

fun truthy :: "int option \<Rightarrow> bool" where
  "truthy None = False"
| "truthy (Some v) = (v \<noteq> 0)"

definition newline :: char where
  "newline = CHR 0x0A"

text \<open>
  \<open>parse_transcript\<close>, on the text \<open>content\<close> that \<open>transcript_file.read()\<close> returned: newlines
  are removed, every character is looked up with \<open>labels_map.get\<close>, the falsy results
  are filtered out.
\<close>

definition parse_transcript_text :: "(char \<rightharpoonup> int) \<Rightarrow> string \<Rightarrow> int list" where
  "parse_transcript_text labels_map content =
     (let transcript = filter (\<lambda>c. c \<noteq> newline) content
      in map the (filter truthy (map labels_map transcript)))"

definition parse_transcript :: "('m, 'f) pyobject \<Rightarrow> string \<Rightarrow> error + int list" where
  "parse_transcript self content =
     (case getattr self ''labels_map'' of
        Inl e \<Rightarrow> Inl e
      | Inr (VLabelsMap m) \<Rightarrow> Inr (parse_transcript_text m content)
      | Inr _ \<Rightarrow> Inl TypeError)"

text \<open>\<open>AudioDataset.__len__\<close>: \<open>return self.size\<close>.\<close>

definition AudioDataset_len :: "('m, 'f) pyobject \<Rightarrow> error + int" where
  "AudioDataset_len self =
     (case getattr self ''size'' of
        Inl e \<Rightarrow> Inl e
      | Inr (VInt n) \<Rightarrow> Inr n
      | Inr _ \<Rightarrow> Inl TypeError)"

text \<open>
  \<open>AudioDataset.__getitem__\<close>. \<open>self.ids\<close> is read first; a sample is its pair of paths
  (\<open>audio_filepath\<close>, \<open>text_filepath\<close>). The featurizer's \<open>load_audio\<close> and the file system
  (\<open>read_file\<close>) are parameters.
\<close>

definition AudioDataset_getitem ::
  "('f \<Rightarrow> string \<Rightarrow> error + 's) \<Rightarrow> (string \<Rightarrow> error + string) \<Rightarrow>
   ('m, 'f) pyobject \<Rightarrow> int \<Rightarrow> error + ('s \<times> int list)" where
  "AudioDataset_getitem load_audio read_file self index =
     (case getattr self ''ids'' of
        Inl e \<Rightarrow> Inl e
      | Inr (VSamples ids) \<Rightarrow>
          (case py_index ids index of
             Inl e \<Rightarrow> Inl e
           | Inr sample \<Rightarrow>
               (case getattr self ''featurizer'' of
                  Inl e \<Rightarrow> Inl e
                | Inr (VFeaturizer f) \<Rightarrow>
                    (case load_audio f (fst sample) of
                       Inl e \<Rightarrow> Inl e
                     | Inr spect \<Rightarrow>
                         (case read_file (snd sample) of
                            Inl e \<Rightarrow> Inl e
                          | Inr content \<Rightarrow>
                              (case parse_transcript self content of
                                 Inl e \<Rightarrow> Inl e
                               | Inr transcript \<Rightarrow> Inr (spect, transcript))))
                | Inr _ \<Rightarrow> Inl TypeError))
      | Inr _ \<Rightarrow> Inl TypeError)"

section \<open>BucketingSampler\<close>

text \<open>
  \<open>BucketingSampler.__init__\<close>. The sampler's state is \<open>self.bins\<close>; \<open>self.data_source\<close> is stored
  and never read again. \<open>len_data_source\<close> is the outcome of \<open>data_source.__len__()\<close>.
\<close>

definition BucketingSampler_init :: "error + int \<Rightarrow> int \<Rightarrow> error + nat list list" where
  "BucketingSampler_init len_data_source batch_size =
     (case py_len len_data_source of
        Inl e \<Rightarrow> Inl e
      | Inr n \<Rightarrow>
          (let ids = [0..<n]
           in case py_range0 (length ids) batch_size of
                Inl e \<Rightarrow> Inl e
              | Inr starts \<Rightarrow>
                  Inr (map (\<lambda>i. py_slice ids (int i) (int i + batch_size)) starts)))"

text \<open>
  \<open>np.random.shuffle\<close> is NumPy's, and works on its process-wide generator. For a Python
  list it runs
  \<^verbatim>\<open>for i in reversed(range(1, n)): j = rk_interval(i, state); x[i], x[j] = x[j], x[i]\<close>
  The generator is a parameter of the model: \<open>draw\<close> maps a generator state to a raw number
  and the next state, and \<open>rk_interval\<close> reduces the number into \<open>0..max\<close>, the range NumPy
  guarantees.
\<close>

definition rk_interval :: "('g \<Rightarrow> nat \<times> 'g) \<Rightarrow> nat \<Rightarrow> 'g \<Rightarrow> nat \<times> 'g" where
  "rk_interval draw mx g = (fst (draw g) mod (mx + 1), snd (draw g))"

fun shuffle_loop :: "('g \<Rightarrow> nat \<times> 'g) \<Rightarrow> nat \<Rightarrow> 'a list \<Rightarrow> 'g \<Rightarrow> 'a list \<times> 'g" where
  "shuffle_loop draw 0 x g = (x, g)"
| "shuffle_loop draw (Suc k) x g =
     (let i = Suc k;
          (j, g') = rk_interval draw i g
      in shuffle_loop draw k (x[i := x ! j, j := x ! i]) g')"

definition np_random_shuffle :: "('g \<Rightarrow> nat \<times> 'g) \<Rightarrow> 'a list \<Rightarrow> 'g \<Rightarrow> 'a list \<times> 'g" where
  "np_random_shuffle draw x g = shuffle_loop draw (length x - 1) x g"

text \<open>
  \<open>BucketingSampler.__iter__\<close> is a generator over \<open>self.bins\<close>. Its state is the position \<open>k\<close> of
  the list iterator; the world it runs in is the pair of \<open>self.bins\<close> and the generator
  state. One \<open>next\<close> shuffles the bin at \<open>k\<close> in place and yields that same list object, or
  stops when \<open>k\<close> has reached the end of \<open>self.bins\<close>.
\<close>

definition iter_next ::
  "('g \<Rightarrow> nat \<times> 'g) \<Rightarrow> nat \<Rightarrow> nat list list \<times> 'g \<Rightarrow> (nat list \<times> nat list list \<times> 'g) option" where
  "iter_next draw k w =
     (case w of (bins, g) \<Rightarrow>
        if k < length bins
        then (let (ids, g') = np_random_shuffle draw (bins ! k) g
              in Some (ids, bins[k := ids], g'))
        else None)"

text \<open>
  A pass that is run to its end from position \<open>k\<close>: the buckets it yields, in order, and
  the world it leaves.
\<close>

function iter_from ::
  "('g \<Rightarrow> nat \<times> 'g) \<Rightarrow> nat \<Rightarrow> nat list list \<times> 'g \<Rightarrow> nat list list \<times> nat list list \<times> 'g" where
  "iter_from draw k w =
     (case iter_next draw k w of
        None \<Rightarrow> ([], w)
      | Some (ids, w') \<Rightarrow>
          (case iter_from draw (Suc k) w' of (yielded, w'') \<Rightarrow> (ids # yielded, w'')))"
  by pat_completeness auto
termination
  by (relation "measure (\<lambda>(draw, k, w). length (fst w) - k)")
     (auto simp: iter_next_def split: prod.splits if_splits)

definition BucketingSampler_iter ::
  "('g \<Rightarrow> nat \<times> 'g) \<Rightarrow> nat list list \<times> 'g \<Rightarrow> nat list list \<times> nat list list \<times> 'g" where
  "BucketingSampler_iter draw w = iter_from draw 0 w"

text \<open>\<open>BucketingSampler.__len__\<close> and \<open>BucketingSampler.shuffle\<close>.\<close>

definition BucketingSampler_len :: "nat list list \<Rightarrow> nat" where
  "BucketingSampler_len bins = length bins"

definition BucketingSampler_shuffle ::
  "('g \<Rightarrow> nat \<times> 'g) \<Rightarrow> nat list list \<times> 'g \<Rightarrow> nat list list \<times> 'g" where
  "BucketingSampler_shuffle draw w = (case w of (bins, g) \<Rightarrow> np_random_shuffle draw bins g)"

text \<open>
  The worlds a sampler can be in: the one its construction leaves, for any generator state,
  and every world reached from there by a \<open>next\<close> of an iteration pass at any position
  (so also by passes that are abandoned, or interleaved with other calls), by a call of
  \<open>shuffle\<close>, or by any other use of the process-wide generator.
\<close>

inductive reachable ::
  "('g \<Rightarrow> nat \<times> 'g) \<Rightarrow> error + int \<Rightarrow> int \<Rightarrow> nat list list \<times> 'g \<Rightarrow> bool"
  for draw :: "'g \<Rightarrow> nat \<times> 'g" and len_data_source :: "error + int" and batch_size :: int where
  constructed: "BucketingSampler_init len_data_source batch_size = Inr bins \<Longrightarrow>
                reachable draw len_data_source batch_size (bins, g)"
| iterated: "reachable draw len_data_source batch_size w \<Longrightarrow>
             iter_next draw k w = Some (ids, w') \<Longrightarrow>
             reachable draw len_data_source batch_size w'"
| shuffled: "reachable draw len_data_source batch_size w \<Longrightarrow>
             reachable draw len_data_source batch_size (BucketingSampler_shuffle draw w)"
| reseeded: "reachable draw len_data_source batch_size (bins, g) \<Longrightarrow>
             reachable draw len_data_source batch_size (bins, g')"

text \<open>
  The value of the list comprehension of \<open>__init__\<close> for a positive batch size \<open>b\<close> and a
  data source of length \<open>n\<close>: the consecutive slices of \<open>b\<close> indices, the last one shorter when
  \<open>b\<close> does not divide \<open>n\<close>. It is proved equal to what \<open>BucketingSampler_init\<close> builds
  (\<open>init_chunks\<close>).
\<close>

definition chunks :: "nat \<Rightarrow> nat \<Rightarrow> nat list list" where
  "chunks n b = map (\<lambda>k. take b (drop (k * b) [0..<n])) [0..<(n + b - 1) div b]"

section \<open>Tensors\<close>

text \<open>
  A 2-D tensor (a feature matrix) is its two sizes and its cells: \<open>size0\<close> is
  \<open>t.size(0)\<close>, the feature dimension, \<open>size1\<close> is \<open>t.size(1)\<close>, the number of frames, and
  \<open>at2 t r c\<close> is the cell in row \<open>r\<close>, column \<open>c\<close>. A 4-D tensor likewise. The cells' type
  \<open>'a\<close> stands for the tensor's scalar type, with its zero; copying a cell does not change
  it (the features are taken to have the scalar type of \<open>torch.zeros\<close>). A size may be
  zero, as in current torch.
\<close>

record 'a tensor2 =
  size0 :: nat
  size1 :: nat
  at2 :: "nat \<Rightarrow> nat \<Rightarrow> 'a"

record 'a tensor4 =
  shape :: "nat \<times> nat \<times> nat \<times> nat"
  at4 :: "nat \<Rightarrow> nat \<Rightarrow> nat \<Rightarrow> nat \<Rightarrow> 'a"

definition zeros :: "nat \<Rightarrow> nat \<Rightarrow> nat \<Rightarrow> nat \<Rightarrow> ('a::zero) tensor4" where
  "zeros n c f t = \<lparr>shape = (n, c, f, t), at4 = (\<lambda>_ _ _ _. 0)\<rparr>"

text \<open>
  \<open>inputs[i][0].narrow(1, 0, n).copy_(src)\<close> with \<open>n = src.size(1)\<close>. The destination is the
  first \<open>n\<close> columns of channel 0 of item \<open>i\<close>, of shape (F, n); \<open>narrow\<close> raises when \<open>n\<close> exceeds
  the number of columns. \<open>copy_\<close> copies a source of the same shape cell by cell, broadcasts
  a source of one row to every row, and raises for any other source.
\<close>

definition narrow_copy :: "'a tensor4 \<Rightarrow> nat \<Rightarrow> 'a tensor2 \<Rightarrow> error + 'a tensor4" where
  "narrow_copy inputs i src =
     (case shape inputs of (N, C, F, T) \<Rightarrow>
        if N \<le> i \<or> C = 0 then Inl IndexError
        else if T < size1 src then Inl RuntimeError
        else if size0 src = F then
          Inr (inputs\<lparr>at4 := (\<lambda>b c r t.
                 if b = i \<and> c = 0 \<and> r < F \<and> t < size1 src then at2 src r t
                 else at4 inputs b c r t)\<rparr>)
        else if size0 src = 1 then
          Inr (inputs\<lparr>at4 := (\<lambda>b c r t.
                 if b = i \<and> c = 0 \<and> r < F \<and> t < size1 src then at2 src 0 t
                 else at4 inputs b c r t)\<rparr>)
        else Inl RuntimeError)"

text \<open>
  An \<open>IntTensor\<close> is a list of 32-bit cells, modelled by the integers they hold.
  \<open>torch.IntTensor(n)\<close> is uninitialised: its cells hold whatever \<open>junk\<close> the memory held. A
  number that does not fit 32 bits is refused with \<open>RuntimeError\<close>.
\<close>

definition int32 :: "int \<Rightarrow> bool" where
  "int32 v \<longleftrightarrow> - (2 ^ 31) \<le> v \<and> v < 2 ^ 31"

definition IntTensor_uninit :: "(nat \<Rightarrow> int) \<Rightarrow> nat \<Rightarrow> int list" where
  "IntTensor_uninit junk n = map junk [0..<n]"

definition IntTensor_set :: "int list \<Rightarrow> nat \<Rightarrow> int \<Rightarrow> error + int list" where
  "IntTensor_set t i v =
     (if length t \<le> i then Inl IndexError
      else if int32 v then Inr (t[i := v])
      else Inl RuntimeError)"

definition IntTensor_of_list :: "int list \<Rightarrow> error + int list" where
  "IntTensor_of_list xs = (if list_all int32 xs then Inr xs else Inl RuntimeError)"

section \<open>audio_seq_collate_fn\<close>

text \<open>
  A sample is the pair of a feature matrix and a label sequence (a Python list of
  integers). The state of the loop is the four buffers \<open>inputs\<close>, \<open>input_lengths\<close>,
  \<open>target_sizes\<close> and \<open>targets\<close>.
\<close>

type_synonym 'a sample = "'a tensor2 \<times> int list"

type_synonym 'a buffers = "'a tensor4 \<times> int list \<times> int list \<times> int list"

definition frame_count :: "'a sample \<Rightarrow> nat" where
  "frame_count x = size1 (fst x)"

text \<open>The body of the loop, for the pair \<open>(i, sample)\<close> of \<open>enumerate(batch)\<close>.\<close>

definition collate_step :: "nat \<Rightarrow> 'a sample \<Rightarrow> 'a buffers \<Rightarrow> error + 'a buffers" where
  "collate_step i sample st =
     (case st of (inputs, input_lengths, target_sizes, targets) \<Rightarrow>
        (case IntTensor_set input_lengths i (int (size1 (fst sample))) of
           Inl e \<Rightarrow> Inl e
         | Inr input_lengths' \<Rightarrow>
             (case narrow_copy inputs i (fst sample) of
                Inl e \<Rightarrow> Inl e
              | Inr inputs' \<Rightarrow>
                  (case IntTensor_set target_sizes i (int (length (snd sample))) of
                     Inl e \<Rightarrow> Inl e
                   | Inr target_sizes' \<Rightarrow>
                       Inr (inputs', input_lengths', target_sizes', targets @ snd sample)))))"

fun collate_loop :: "nat \<Rightarrow> 'a sample list \<Rightarrow> 'a buffers \<Rightarrow> error + 'a buffers" where
  "collate_loop i [] st = Inr st"
| "collate_loop i (sample # rest) st =
     (case collate_step i sample st of
        Inl e \<Rightarrow> Inl e
      | Inr st' \<Rightarrow> collate_loop (Suc i) rest st')"

text \<open>
  \<open>batch.sort(key=lambda x: -x[0].size(1))\<close> sorts the caller's list in place. Python's sort
  is stable, and so is \<open>sort_key\<close>; a stable sort by a key has one result.
\<close>

definition sort_batch :: "'a sample list \<Rightarrow> 'a sample list" where
  "sort_batch batch = sort_key (\<lambda>x. - int (size1 (fst x))) batch"

text \<open>
  \<open>audio_seq_collate_fn\<close>. The result is the pair of the outcome (the exception raised, or
  the tuple \<open>(inputs, targets, input_lengths, target_sizes)\<close> returned) and the caller's list
  as the call leaves it. \<open>junk 0\<close> and \<open>junk 1\<close> are the uninitialised contents of the two
  \<open>IntTensor\<close>s.
\<close>

definition audio_seq_collate_fn ::
  "(nat \<Rightarrow> nat \<Rightarrow> int) \<Rightarrow> ('a::zero) sample list \<Rightarrow>
   (error + 'a tensor4 \<times> int list \<times> int list \<times> int list) \<times> 'a sample list" where
  "audio_seq_collate_fn junk batch0 =
     (let batch = sort_batch batch0;
          minibatch_size = length batch
      in (case batch of
            [] \<Rightarrow> Inl IndexError
          | first # _ \<Rightarrow>
              (let inputs = zeros minibatch_size 1 (size0 (fst first)) (size1 (fst first));
                   input_lengths = IntTensor_uninit (junk 0) minibatch_size;
                   target_sizes = IntTensor_uninit (junk 1) minibatch_size
               in case collate_loop 0 batch (inputs, input_lengths, target_sizes, []) of
                    Inl e \<Rightarrow> Inl e
                  | Inr (inputs', input_lengths', target_sizes', targets) \<Rightarrow>
                      (case IntTensor_of_list targets of
                         Inl e \<Rightarrow> Inl e
                       | Inr targets' \<Rightarrow>
                           Inr (inputs', targets', input_lengths', target_sizes'))),
          batch))"

text \<open>
  A valid batch: all samples share the feature dimension, and every frame count, label
  count and label fits a 32-bit cell.
\<close>

definition valid_sample :: "'a sample \<Rightarrow> bool" where
  "valid_sample x \<longleftrightarrow>
     int32 (int (size1 (fst x))) \<and> int32 (int (length (snd x))) \<and> list_all int32 (snd x)"

definition valid_batch :: "'a sample list \<Rightarrow> bool" where
  "valid_batch batch \<longleftrightarrow>
     list_all (\<lambda>x. size0 (fst x) = size0 (fst (hd batch)) \<and> valid_sample x) batch"

section \<open>split_targets\<close>

text \<open>
  \<open>split_targets\<close> (trainer.py) slices \<open>targets\<close> at a running offset; the sizes are integers
  read from a tensor, the slices are Python's.
\<close>

fun split_loop :: "'a list \<Rightarrow> int list \<Rightarrow> int \<Rightarrow> 'a list list \<Rightarrow> 'a list list" where
  "split_loop targets [] offset results = results"
| "split_loop targets (sz # rest) offset results =
     split_loop targets rest (offset + sz) (results @ [py_slice targets offset (offset + sz)])"

definition split_targets :: "'a list \<Rightarrow> int list \<Rightarrow> 'a list list" where
  "split_targets targets target_sizes = split_loop targets target_sizes 0 []"

section \<open>Example inputs\<close>

text \<open>
  Two samples of one feature row, of one and of two frames, and a generator that counts:
  the concrete inputs at which the theorems below are instantiated.
\<close>

definition example_short :: "int sample" where
  "example_short = (\<lparr>size0 = 1, size1 = 1, at2 = (\<lambda>r c. 5)\<rparr>, [3])"

definition example_long :: "int sample" where
  "example_long = (\<lparr>size0 = 1, size1 = 2, at2 = (\<lambda>r c. 7 + int c)\<rparr>, [1, 2])"

definition no_junk :: "nat \<Rightarrow> nat \<Rightarrow> int" where
  "no_junk k i = 0"

definition counter_draw :: "nat \<Rightarrow> nat \<times> nat" where
  "counter_draw g = (g, Suc g)"

section \<open>Properties of AudioDataset\<close>


lemma fold_labels_other:
  "c \<notin> (\<lambda>i. labels ! i) ` set is \<Longrightarrow>
   fold (\<lambda>i m. m(labels ! i \<mapsto> int i)) is m0 c = m0 c"
  by (induction "is" arbitrary: m0) auto

lemma labels_map_of_first:
  assumes "labels \<noteq> []" and "hd labels \<notin> set (tl labels)"
  shows "labels_map_of labels (hd labels) = Some 0"
proof -
  obtain x xs where l: "labels = x # xs" using assms(1) by (cases labels) auto
  have up: "[0..<length labels] = 0 # [1..<length labels]"
    using l by (simp add: upt_rec)
  have notin: "x \<notin> (\<lambda>i. labels ! i) ` set [1..<length labels]"
  proof
    assume "x \<in> (\<lambda>i. labels ! i) ` set [1..<length labels]"
    then obtain i where i: "1 \<le> i" "i < length labels" "labels ! i = x" by auto
    then have "xs ! (i - 1) = x" "i - 1 < length xs" using l by (auto simp: nth_Cons')
    then have "x \<in> set xs" by (metis nth_mem)
    with assms(2) l show False by simp
  qed
  have "labels_map_of labels x =
          fold (\<lambda>i m. m(labels ! i \<mapsto> int i)) [1..<length labels] (Map.empty(x \<mapsto> 0)) x"
    unfolding labels_map_of_def up using l by simp
  also have "\<dots> = (Map.empty(x \<mapsto> 0)) x"
    by (rule fold_labels_other[OF notin])
  finally show ?thesis using l by simp
qed

lemma labels_map_of_absent:
  "c \<notin> set labels \<Longrightarrow> labels_map_of labels c = None"
proof -
  assume a: "c \<notin> set labels"
  have "c \<notin> (\<lambda>i. labels ! i) ` set [0..<length labels]"
    using a by (auto simp: in_set_conv_nth)
  from fold_labels_other[OF this] show ?thesis by (simp add: labels_map_of_def)
qed

lemma parse_text_eq:
  "parse_transcript_text m content =
     map (\<lambda>c. the (m c)) (filter (\<lambda>c. c \<noteq> newline \<and> m c \<noteq> None \<and> m c \<noteq> Some 0) content)"
proof (induction content)
  case Nil
  show ?case by (simp add: parse_transcript_text_def)
next
  case (Cons a content)
  then show ?case
    by (cases "m a") (auto simp: parse_transcript_text_def Let_def)
qed

lemma parse_text_no_zero: "0 \<notin> set (parse_transcript_text m content)"
  unfolding parse_text_eq by auto

lemma parse_text_drop:
  "m c = Some 0 \<or> m c = None \<Longrightarrow>
   parse_transcript_text m (filter (\<lambda>x. x \<noteq> c) content) = parse_transcript_text m content"
  unfolding parse_text_eq
  by (induction content) auto

lemma init_attrs:
  assumes "AudioDataset_init manifest labels featurizer = Inr self"
  shows "self ''size'' = None" "self ''ids'' = None"
    "self ''labels_map'' = Some (VLabelsMap (labels_map_of labels))"
  using assms by (auto simp: AudioDataset_init_def split: sum.splits)


text \<open>
  Claim C9. On every constructed \<open>AudioDataset\<close>, \<open>parse_transcript\<close> returns the labels of
  the transcript's characters without the newlines, without the characters that have no
  label, and without the characters whose label is \<open>0\<close>: no \<open>0\<close> is ever returned, and
  deleting every occurrence of a character labelled \<open>0\<close> (or of an unlabelled one) from the
  transcript does not change the result. The first character of \<open>labels\<close> is labelled \<open>0\<close>
  unless it occurs in \<open>labels\<close> again.
\<close>

theorem parse_transcript_drops_label_zero:
  assumes "AudioDataset_init manifest labels featurizer = Inr self"
  shows "(\<exists>r. parse_transcript self content = Inr r \<and> 0 \<notin> set r \<and>
            r = map (\<lambda>c. the (labels_map_of labels c))
                  (filter (\<lambda>c. c \<noteq> newline \<and> labels_map_of labels c \<noteq> None \<and>
                               labels_map_of labels c \<noteq> Some 0) content)) \<and>
         (\<forall>c. labels_map_of labels c = Some 0 \<or> labels_map_of labels c = None \<longrightarrow>
              parse_transcript self (filter (\<lambda>x. x \<noteq> c) content) =
              parse_transcript self content) \<and>
         (labels \<noteq> [] \<and> hd labels \<notin> set (tl labels) \<longrightarrow>
              labels_map_of labels (hd labels) = Some 0)"
proof -
  have p: "parse_transcript self t = Inr (parse_transcript_text (labels_map_of labels) t)" for t
    using init_attrs(3)[OF assms] by (simp add: parse_transcript_def getattr_def)
  have a: "\<exists>r. parse_transcript self content = Inr r \<and> 0 \<notin> set r \<and>
            r = map (\<lambda>c. the (labels_map_of labels c))
                  (filter (\<lambda>c. c \<noteq> newline \<and> labels_map_of labels c \<noteq> None \<and>
                               labels_map_of labels c \<noteq> Some 0) content)"
    using parse_text_no_zero[of "labels_map_of labels" content]
    by (simp add: p parse_text_eq)
  have b: "\<forall>c. labels_map_of labels c = Some 0 \<or> labels_map_of labels c = None \<longrightarrow>
              parse_transcript self (filter (\<lambda>x. x \<noteq> c) content) =
              parse_transcript self content"
    by (simp add: p parse_text_drop)
  have c: "labels \<noteq> [] \<and> hd labels \<notin> set (tl labels) \<longrightarrow>
              labels_map_of labels (hd labels) = Some 0"
    by (simp add: labels_map_of_first)
  from a b c show ?thesis by blast
qed

theorem parse_transcript_drops_label_zero_witness:
  "\<exists>self. AudioDataset_init (Inr ()) ''_ab'' () = Inr self \<and>
          parse_transcript self ''_a_bz'' = Inr [1, 2] \<and>
          parse_transcript self (filter (\<lambda>x. x \<noteq> CHR ''_'') ''_a_bz'') = Inr [1, 2] \<and>
          labels_map_of ''_ab'' (CHR ''_'') = Some 0"
proof -
  obtain self :: "(unit, unit) pyobject"
    where i: "AudioDataset_init (Inr ()) ''_ab'' () = Inr self"
    by (simp add: AudioDataset_init_def)
  have m: "labels_map_of ''_ab'' (CHR ''_'') = Some 0" "labels_map_of ''_ab'' (CHR ''a'') = Some 1"
    "labels_map_of ''_ab'' (CHR ''b'') = Some 2" "labels_map_of ''_ab'' (CHR ''z'') = None"
    by (simp_all add: labels_map_of_def)
  from parse_transcript_drops_label_zero[OF i, of "''_a_bz''"] m
  have "parse_transcript self ''_a_bz'' = Inr [1, 2] \<and>
        parse_transcript self (filter (\<lambda>x. x \<noteq> CHR ''_'') ''_a_bz'') = Inr [1, 2]"
    by (auto simp: newline_def)
  with i m(1) show ?thesis by blast
qed

text \<open>
  Claim C10. On every constructed \<open>AudioDataset\<close>, \<open>__len__\<close> raises \<open>AttributeError\<close>
  (\<open>self.size\<close> is never assigned), \<open>__getitem__\<close> raises \<open>AttributeError\<close> for every index
  (\<open>self.ids\<close> is never assigned), and constructing a \<open>BucketingSampler\<close> over it, for any
  batch size, raises \<open>AttributeError\<close> too.
\<close>

theorem AudioDataset_len_raises:
  assumes "AudioDataset_init manifest labels featurizer = Inr self"
  shows "AudioDataset_len self = Inl AttributeError \<and>
         AudioDataset_getitem load_audio read_file self index = Inl AttributeError \<and>
         BucketingSampler_init (AudioDataset_len self) batch_size = Inl AttributeError"
proof -
  have l: "AudioDataset_len self = Inl AttributeError"
    using init_attrs(1)[OF assms] by (simp add: AudioDataset_len_def getattr_def)
  have g: "AudioDataset_getitem load_audio read_file self index = Inl AttributeError"
    using init_attrs(2)[OF assms] by (simp add: AudioDataset_getitem_def getattr_def)
  have b: "BucketingSampler_init (AudioDataset_len self) batch_size = Inl AttributeError"
    by (simp add: l BucketingSampler_init_def py_len_def)
  from l g b show ?thesis by blast
qed

theorem AudioDataset_len_raises_witness:
  "\<exists>self. AudioDataset_init (Inr ()) ''_ab'' () = Inr self \<and>
          AudioDataset_len self = Inl AttributeError \<and>
          AudioDataset_getitem (\<lambda>f p. Inr p) (\<lambda>p. Inr ''ab'') self 0 = Inl AttributeError \<and>
          BucketingSampler_init (AudioDataset_len self) 4 = Inl AttributeError"
proof -
  obtain self :: "(unit, unit) pyobject"
    where i: "AudioDataset_init (Inr ()) ''_ab'' () = Inr self"
    by (simp add: AudioDataset_init_def)
  from AudioDataset_len_raises[OF i, of "\<lambda>f p. Inr p" "\<lambda>p. Inr ''ab''" 0 4] i
  show ?thesis by blast
qed

section \<open>Properties of audio_seq_collate_fn and split_targets\<close>

text \<open>
  Claim C7. On the empty list \<open>audio_seq_collate_fn\<close> fails: \<open>batch[0]\<close> raises
  \<open>IndexError\<close>, the exception that stands for the spec's \<open>EmptyBatch\<close>, before any buffer is
  allocated; no batch is returned and the caller's list stays empty.
\<close>

theorem collate_empty_batch_fails:
  "audio_seq_collate_fn junk [] = (Inl IndexError, [])"
  by (simp add: audio_seq_collate_fn_def sort_batch_def)

lemma sort_batch_mset: "mset (sort_batch b) = mset b"
  by (simp add: sort_batch_def)

lemma sort_batch_set: "set (sort_batch b) = set b"
  by (simp add: sort_batch_def)

lemma sort_batch_length: "length (sort_batch b) = length b"
  by (simp add: sort_batch_def)

lemma sort_batch_stable:
  "filter (\<lambda>x. frame_count x = k) (sort_batch b) = filter (\<lambda>x. frame_count x = k) b"
proof -
  have "(\<lambda>x::'a sample. frame_count x = k) = (\<lambda>x. - int (size1 (fst x)) = - int k)"
    by (auto simp: frame_count_def)
  then show ?thesis
    unfolding sort_batch_def by (simp only: sort_key_stable)
qed

lemma sort_batch_descending:
  "sorted_wrt (\<lambda>a b. b \<le> a) (map (\<lambda>x. int (frame_count x)) (sort_batch b))"
proof -
  have "sorted (map (\<lambda>x. - int (size1 (fst x))) (sort_batch b))"
    unfolding sort_batch_def by (rule sorted_sort_key)
  then show ?thesis
    by (simp add: sorted_wrt_map frame_count_def)
qed

lemma sort_batch_first_longest:
  assumes "sort_batch b = first # rest" and "x \<in> set b"
  shows "size1 (fst x) \<le> size1 (fst first)"
proof -
  have "x \<in> set (first # rest)" using assms sort_batch_set[of b] by simp
  moreover have "sorted_wrt (\<lambda>a b. b \<le> a) (map (\<lambda>x. int (frame_count x)) (first # rest))"
    using sort_batch_descending[of b] assms(1) by simp
  ultimately show ?thesis by (auto simp: frame_count_def)
qed

lemma sort_batch_id:
  "sorted_wrt (\<lambda>a b. b \<le> a) (map (\<lambda>x. int (frame_count x)) b) \<Longrightarrow> sort_batch b = b"
proof -
  assume "sorted_wrt (\<lambda>a b. b \<le> a) (map (\<lambda>x. int (frame_count x)) b)"
  then have "sorted (map (\<lambda>x. - int (size1 (fst x))) b)"
    by (simp add: sorted_wrt_map frame_count_def)
  then show ?thesis unfolding sort_batch_def by (rule sort_key_id_if_sorted)
qed

lemma collate_loop_lists:
  "collate_loop i rest (inputs, il, ts, tg) = Inr (inputs', il', ts', tg') \<Longrightarrow>
   i + length rest = length il \<Longrightarrow> length ts = length il \<Longrightarrow>
   il' = take i il @ map (\<lambda>x. int (frame_count x)) rest \<and>
   ts' = take i ts @ map (\<lambda>x. int (length (snd x))) rest \<and>
   tg' = tg @ concat (map snd rest)"
proof (induction rest arbitrary: i inputs il ts tg)
  case Nil
  then show ?case by simp
next
  case (Cons x rest)
  from Cons.prems(1) obtain inputs1 il1 ts1 tg1 where
    step: "collate_step i x (inputs, il, ts, tg) = Inr (inputs1, il1, ts1, tg1)" and
    loop: "collate_loop (Suc i) rest (inputs1, il1, ts1, tg1) = Inr (inputs', il', ts', tg')"
    by (auto split: sum.splits)
  have i: "i < length il" "i < length ts" using Cons.prems by auto
  from step have il1: "il1 = il[i := int (frame_count x)]"
    and ts1: "ts1 = ts[i := int (length (snd x))]" and tg1: "tg1 = tg @ snd x"
    by (auto simp: collate_step_def IntTensor_set_def frame_count_def split: sum.splits if_splits)
  have "Suc i + length rest = length il1" "length ts1 = length il1"
    using Cons.prems il1 ts1 by auto
  from Cons.IH[OF loop this]
  have "il' = take (Suc i) il1 @ map (\<lambda>x. int (frame_count x)) rest"
    "ts' = take (Suc i) ts1 @ map (\<lambda>x. int (length (snd x))) rest"
    "tg' = tg1 @ concat (map snd rest)" by auto
  moreover have "take (Suc i) il1 = take i il @ [int (frame_count x)]"
    using i il1 by (simp add: take_Suc_conv_app_nth)
  moreover have "take (Suc i) ts1 = take i ts @ [int (length (snd x))]"
    using i ts1 by (simp add: take_Suc_conv_app_nth)
  ultimately show ?case using tg1 by simp
qed

lemma collate_loop_valid:
  "shape inputs = (N, C, F, T) \<Longrightarrow> 0 < C \<Longrightarrow> i + length rest = N \<Longrightarrow>
   length il = N \<Longrightarrow> length ts = N \<Longrightarrow>
   \<forall>x\<in>set rest. size0 (fst x) = F \<and> size1 (fst x) \<le> T \<and>
       int32 (int (size1 (fst x))) \<and> int32 (int (length (snd x))) \<Longrightarrow>
   \<exists>inputs' il' ts' tg'.
     collate_loop i rest (inputs, il, ts, tg) = Inr (inputs', il', ts', tg') \<and>
     shape inputs' = (N, C, F, T) \<and>
     (\<forall>b c r t. at4 inputs' b c r t =
        (if i \<le> b \<and> b < N \<and> c = 0 \<and> r < F \<and> t < size1 (fst (rest ! (b - i)))
         then at2 (fst (rest ! (b - i))) r t else at4 inputs b c r t))"
proof (induction rest arbitrary: i inputs il ts tg)
  case Nil
  then show ?case by auto
next
  case (Cons x rest)
  let ?inputs1 = "inputs\<lparr>at4 := (\<lambda>b c r t.
                 if b = i \<and> c = 0 \<and> r < F \<and> t < size1 (fst x) then at2 (fst x) r t
                 else at4 inputs b c r t)\<rparr>"
  let ?il1 = "il[i := int (size1 (fst x))]"
  let ?ts1 = "ts[i := int (length (snd x))]"
  have i: "i < N" using Cons.prems by auto
  have x: "size0 (fst x) = F" "size1 (fst x) \<le> T" "int32 (int (size1 (fst x)))"
    "int32 (int (length (snd x)))" using Cons.prems(6) by auto
  have nc: "narrow_copy inputs i (fst x) = Inr ?inputs1"
    using Cons.prems(1,2) i x by (simp add: narrow_copy_def)
  have step: "collate_step i x (inputs, il, ts, tg) = Inr (?inputs1, ?il1, ?ts1, tg @ snd x)"
    using Cons.prems(4,5) i x nc by (simp add: collate_step_def IntTensor_set_def)
  have "\<exists>inputs' il' ts' tg'.
     collate_loop (Suc i) rest (?inputs1, ?il1, ?ts1, tg @ snd x) = Inr (inputs', il', ts', tg') \<and>
     shape inputs' = (N, C, F, T) \<and>
     (\<forall>b c r t. at4 inputs' b c r t =
        (if Suc i \<le> b \<and> b < N \<and> c = 0 \<and> r < F \<and> t < size1 (fst (rest ! (b - Suc i)))
         then at2 (fst (rest ! (b - Suc i))) r t else at4 ?inputs1 b c r t))"
    using Cons.prems by (intro Cons.IH) auto
  then obtain inputs' il' ts' tg' where
    loop: "collate_loop (Suc i) rest (?inputs1, ?il1, ?ts1, tg @ snd x) = Inr (inputs', il', ts', tg')"
    and sh: "shape inputs' = (N, C, F, T)"
    and cells: "\<And>b c r t. at4 inputs' b c r t =
        (if Suc i \<le> b \<and> b < N \<and> c = 0 \<and> r < F \<and> t < size1 (fst (rest ! (b - Suc i)))
         then at2 (fst (rest ! (b - Suc i))) r t else at4 ?inputs1 b c r t)"
    by blast
  have "collate_loop i (x # rest) (inputs, il, ts, tg) = Inr (inputs', il', ts', tg')"
    using step loop by simp
  moreover have "at4 inputs' b c r t =
        (if i \<le> b \<and> b < N \<and> c = 0 \<and> r < F \<and> t < size1 (fst ((x # rest) ! (b - i)))
         then at2 (fst ((x # rest) ! (b - i))) r t else at4 inputs b c r t)" for b c r t
  proof (cases "b = i")
    case True
    then show ?thesis using i by (simp add: cells)
  next
    case False
    then show ?thesis by (auto simp: cells nth_Cons' Suc_diff_Suc)
  qed
  ultimately show ?case using sh by blast
qed

lemma collate_caller_list: "snd (audio_seq_collate_fn junk b) = sort_batch b"
  by (simp add: audio_seq_collate_fn_def Let_def)

lemma IntTensor_uninit_length: "length (IntTensor_uninit j n) = n"
  by (simp add: IntTensor_uninit_def)

lemma collate_returned_lists:
  assumes "fst (audio_seq_collate_fn junk b) = Inr (inputs, targets, il, ts)"
  shows "il = map (\<lambda>x. int (frame_count x)) (sort_batch b) \<and>
         ts = map (\<lambda>x. int (length (snd x))) (sort_batch b) \<and>
         targets = concat (map snd (sort_batch b))"
proof (cases "sort_batch b")
  case Nil
  with assms show ?thesis by (simp add: audio_seq_collate_fn_def Let_def)
next
  case (Cons first rest)
  let ?N = "length (sort_batch b)"
  from assms Cons obtain tg where
    loop: "collate_loop 0 (sort_batch b)
             (zeros ?N 1 (size0 (fst first)) (size1 (fst first)),
              IntTensor_uninit (junk 0) ?N, IntTensor_uninit (junk 1) ?N, []) =
           Inr (inputs, il, ts, tg)"
    and tg: "IntTensor_of_list tg = Inr targets"
    by (auto simp: audio_seq_collate_fn_def Let_def split: sum.splits)
  have "targets = tg" using tg by (auto simp: IntTensor_of_list_def split: if_splits)
  with collate_loop_lists[OF loop] show ?thesis
    by (simp add: IntTensor_uninit_length)
qed

lemma collate_valid_returns:
  assumes "valid_batch b" and "b \<noteq> []"
  shows "\<exists>inputs targets il ts.
           fst (audio_seq_collate_fn junk b) = Inr (inputs, targets, il, ts) \<and>
           shape inputs = (length b, 1, size0 (fst (hd b)), frame_count (hd (sort_batch b))) \<and>
           (\<forall>i c r t. at4 inputs i c r t =
              (if i < length b \<and> c = 0 \<and> r < size0 (fst (hd b)) \<and>
                  t < frame_count (sort_batch b ! i)
               then at2 (fst (sort_batch b ! i)) r t else 0))"
proof -
  obtain first rest where s: "sort_batch b = first # rest"
    using assms(2) sort_batch_length[of b] by (cases "sort_batch b") auto
  let ?N = "length (sort_batch b)"
  let ?F = "size0 (fst (hd b))"
  let ?T = "size1 (fst first)"
  have v: "\<And>x. x \<in> set b \<Longrightarrow> size0 (fst x) = ?F \<and> valid_sample x"
    using assms(1) by (auto simp: valid_batch_def list_all_iff)
  have "first \<in> set b" using s sort_batch_set[of b] by auto
  then have F: "size0 (fst first) = ?F" using v by blast
  have pre: "\<forall>x\<in>set (sort_batch b). size0 (fst x) = ?F \<and> size1 (fst x) \<le> ?T \<and>
       int32 (int (size1 (fst x))) \<and> int32 (int (length (snd x)))"
    using v sort_batch_first_longest[OF s] by (auto simp: sort_batch_set valid_sample_def)
  have "\<exists>inputs' il' ts' tg'.
     collate_loop 0 (sort_batch b)
        (zeros ?N 1 ?F ?T, IntTensor_uninit (junk 0) ?N, IntTensor_uninit (junk 1) ?N, []) =
     Inr (inputs', il', ts', tg') \<and>
     shape inputs' = (?N, 1, ?F, ?T) \<and>
     (\<forall>b' c r t. at4 inputs' b' c r t =
        (if 0 \<le> b' \<and> b' < ?N \<and> c = 0 \<and> r < ?F \<and> t < size1 (fst (sort_batch b ! (b' - 0)))
         then at2 (fst (sort_batch b ! (b' - 0))) r t
         else at4 (zeros ?N 1 ?F ?T) b' c r t))"
    by (rule collate_loop_valid) (use pre in \<open>auto simp: zeros_def IntTensor_uninit_length\<close>)
  then obtain inputs' il' ts' tg' where
    loop: "collate_loop 0 (sort_batch b)
        (zeros ?N 1 ?F ?T, IntTensor_uninit (junk 0) ?N, IntTensor_uninit (junk 1) ?N, []) =
        Inr (inputs', il', ts', tg')"
    and sh: "shape inputs' = (?N, 1, ?F, ?T)"
    and cells: "\<And>b' c r t. at4 inputs' b' c r t =
        (if b' < ?N \<and> c = 0 \<and> r < ?F \<and> t < size1 (fst (sort_batch b ! b'))
         then at2 (fst (sort_batch b ! b')) r t
         else 0)"
    by (auto simp: zeros_def)
  have tg': "tg' = concat (map snd (sort_batch b))"
    using collate_loop_lists[OF loop] by (simp add: IntTensor_uninit_length)
  have "list_all int32 tg'"
    unfolding tg' using v by (auto simp: list_all_iff sort_batch_set valid_sample_def)
  then have "fst (audio_seq_collate_fn junk b) = Inr (inputs', tg', il', ts')"
    using s loop F by (simp add: audio_seq_collate_fn_def Let_def IntTensor_of_list_def)
  moreover have "shape inputs' = (length b, 1, ?F, frame_count (hd (sort_batch b)))"
    using sh s sort_batch_length[of b] by (simp add: frame_count_def)
  moreover have "\<forall>i c r t. at4 inputs' i c r t =
              (if i < length b \<and> c = 0 \<and> r < ?F \<and> t < frame_count (sort_batch b ! i)
               then at2 (fst (sort_batch b ! i)) r t else 0)"
    using cells by (simp add: sort_batch_length frame_count_def)
  ultimately show ?thesis by blast
qed

lemma sum_list_lengths:
  "sum_list (map (\<lambda>x. int (length (snd x))) s) = int (length (concat (map snd s)))"
  by (induction s) auto

lemma py_slice_middle:
  "py_slice (pre @ l @ post) (int (length pre)) (int (length pre) + int (length l)) = l"
  by (simp add: py_slice_def Let_def)

lemma split_loop_concat:
  "split_loop (pre @ concat ls) (map (\<lambda>l. int (length l)) ls) (int (length pre)) results =
   results @ ls"
proof (induction ls arbitrary: pre results)
  case Nil
  show ?case by simp
next
  case (Cons l ls)
  have "split_loop ((pre @ l) @ concat ls) (map (\<lambda>l. int (length l)) ls)
          (int (length (pre @ l))) (results @ [l]) = (results @ [l]) @ ls"
    by (rule Cons.IH)
  then show ?case using py_slice_middle[of pre l "concat ls"] by simp
qed

lemma split_targets_concat:
  "split_targets (concat (map snd s)) (map (\<lambda>x. int (length (snd x))) s) = map snd s"
  using split_loop_concat[of "[]" "map snd s" "[]"]
  by (simp add: split_targets_def comp_def)

lemma collate_caller_list_props:
  "mset (snd (audio_seq_collate_fn junk batch)) = mset batch \<and>
   sorted_wrt (\<lambda>a b. frame_count b \<le> frame_count a) (snd (audio_seq_collate_fn junk batch)) \<and>
   (\<forall>k. filter (\<lambda>x. frame_count x = k) (snd (audio_seq_collate_fn junk batch)) =
        filter (\<lambda>x. frame_count x = k) batch)"
  using sort_batch_descending[of batch]
  by (simp add: collate_caller_list sort_batch_mset sort_batch_stable sorted_wrt_map)

lemma example_eval:
  "valid_batch [example_short, example_long]"
  "snd (audio_seq_collate_fn no_junk [example_short, example_long]) = [example_long, example_short]"
  "\<exists>inputs. fst (audio_seq_collate_fn no_junk [example_short, example_long]) =
      Inr (inputs, [1, 2, 3], [2, 1], [2, 1])"
    apply (simp add: valid_batch_def valid_sample_def example_short_def example_long_def int32_def)
   apply (simp add: collate_caller_list sort_batch_def example_short_def example_long_def)
  apply (simp add: audio_seq_collate_fn_def sort_batch_def example_short_def example_long_def
      Let_def collate_step_def narrow_copy_def zeros_def IntTensor_uninit_def IntTensor_set_def
      IntTensor_of_list_def int32_def no_junk_def)
  done

text \<open>
  Claim C1. For every non-empty list of samples, the caller's list as the call leaves it,
  which is the order of the samples in the batch, is a rearrangement of the input in
  non-increasing frame count in which samples of equal frame count keep their relative
  order. A valid batch is collated without an exception, and whenever the call returns,
  \<open>input_lengths\<close>, \<open>target_sizes\<close> and \<open>targets\<close> are the frame counts, the label counts and the
  labels of the samples in that order, so \<open>input_lengths\<close> is non-increasing.
\<close>

theorem collate_sorted_descending_stable:
  assumes "batch \<noteq> []"
  shows "mset (snd (audio_seq_collate_fn junk batch)) = mset batch \<and>
         sorted_wrt (\<lambda>a b. frame_count b \<le> frame_count a) (snd (audio_seq_collate_fn junk batch)) \<and>
         (\<forall>k. filter (\<lambda>x. frame_count x = k) (snd (audio_seq_collate_fn junk batch)) =
              filter (\<lambda>x. frame_count x = k) batch) \<and>
         (valid_batch batch \<longrightarrow> (\<exists>out. fst (audio_seq_collate_fn junk batch) = Inr out)) \<and>
         (\<forall>inputs targets il ts.
            fst (audio_seq_collate_fn junk batch) = Inr (inputs, targets, il, ts) \<longrightarrow>
              il = map (\<lambda>x. int (frame_count x)) (snd (audio_seq_collate_fn junk batch)) \<and>
              ts = map (\<lambda>x. int (length (snd x))) (snd (audio_seq_collate_fn junk batch)) \<and>
              targets = concat (map snd (snd (audio_seq_collate_fn junk batch))) \<and>
              sorted_wrt (\<lambda>a b. b \<le> a) il)"
proof -
  have r: "valid_batch batch \<longrightarrow> (\<exists>out. fst (audio_seq_collate_fn junk batch) = Inr out)"
    using collate_valid_returns[OF _ assms, of junk] by blast
  have l: "\<forall>inputs targets il ts.
            fst (audio_seq_collate_fn junk batch) = Inr (inputs, targets, il, ts) \<longrightarrow>
              il = map (\<lambda>x. int (frame_count x)) (snd (audio_seq_collate_fn junk batch)) \<and>
              ts = map (\<lambda>x. int (length (snd x))) (snd (audio_seq_collate_fn junk batch)) \<and>
              targets = concat (map snd (snd (audio_seq_collate_fn junk batch))) \<and>
              sorted_wrt (\<lambda>a b. b \<le> a) il"
  proof (intro allI impI)
    fix inputs targets il ts
    assume "fst (audio_seq_collate_fn junk batch) = Inr (inputs, targets, il, ts)"
    from collate_returned_lists[OF this] sort_batch_descending[of batch]
    show "il = map (\<lambda>x. int (frame_count x)) (snd (audio_seq_collate_fn junk batch)) \<and>
          ts = map (\<lambda>x. int (length (snd x))) (snd (audio_seq_collate_fn junk batch)) \<and>
          targets = concat (map snd (snd (audio_seq_collate_fn junk batch))) \<and>
          sorted_wrt (\<lambda>a b. b \<le> a) il"
      by (simp add: collate_caller_list)
  qed
  from collate_caller_list_props[of junk batch] r l show ?thesis by blast
qed

theorem collate_sorted_descending_stable_witness:
  "[example_short, example_long] \<noteq> [] \<and> valid_batch [example_short, example_long] \<and>
   snd (audio_seq_collate_fn no_junk [example_short, example_long]) = [example_long, example_short] \<and>
   (\<exists>inputs. fst (audio_seq_collate_fn no_junk [example_short, example_long]) =
      Inr (inputs, [1, 2, 3], [2, 1], [2, 1])) \<and>
   sorted_wrt (\<lambda>a b. frame_count b \<le> frame_count a)
     (snd (audio_seq_collate_fn no_junk [example_short, example_long]))"
  using collate_sorted_descending_stable[of "[example_short, example_long]" no_junk] example_eval
  by simp

text \<open>
  Claim C3. A valid non-empty batch is collated without an exception, and whenever
  \<open>audio_seq_collate_fn\<close> returns, \<open>split_targets\<close> applied to the returned \<open>targets\<close> and
  \<open>target_sizes\<close> gives back the label sequences of the samples, in the batch's order: the
  stable rearrangement of the input by non-increasing frame count.
\<close>

theorem split_targets_roundtrip:
  "(valid_batch batch \<and> batch \<noteq> [] \<longrightarrow> (\<exists>out. fst (audio_seq_collate_fn junk batch) = Inr out)) \<and>
   (\<forall>inputs targets il ts.
      fst (audio_seq_collate_fn junk batch) = Inr (inputs, targets, il, ts) \<longrightarrow>
        split_targets targets ts = map snd (snd (audio_seq_collate_fn junk batch))) \<and>
   mset (snd (audio_seq_collate_fn junk batch)) = mset batch \<and>
   sorted_wrt (\<lambda>a b. frame_count b \<le> frame_count a) (snd (audio_seq_collate_fn junk batch)) \<and>
   (\<forall>k. filter (\<lambda>x. frame_count x = k) (snd (audio_seq_collate_fn junk batch)) =
        filter (\<lambda>x. frame_count x = k) batch)"
proof -
  have r: "valid_batch batch \<and> batch \<noteq> [] \<longrightarrow>
           (\<exists>out. fst (audio_seq_collate_fn junk batch) = Inr out)"
    using collate_valid_returns[of batch junk] by blast
  have l: "\<forall>inputs targets il ts.
      fst (audio_seq_collate_fn junk batch) = Inr (inputs, targets, il, ts) \<longrightarrow>
        split_targets targets ts = map snd (snd (audio_seq_collate_fn junk batch))"
  proof (intro allI impI)
    fix inputs targets il ts
    assume "fst (audio_seq_collate_fn junk batch) = Inr (inputs, targets, il, ts)"
    from collate_returned_lists[OF this]
    show "split_targets targets ts = map snd (snd (audio_seq_collate_fn junk batch))"
      by (simp add: collate_caller_list split_targets_concat)
  qed
  from collate_caller_list_props[of junk batch] r l show ?thesis by blast
qed

theorem split_targets_roundtrip_witness:
  "valid_batch [example_short, example_long] \<and> [example_short, example_long] \<noteq> [] \<and>
   (\<exists>inputs. fst (audio_seq_collate_fn no_junk [example_short, example_long]) =
      Inr (inputs, [1, 2, 3], [2, 1], [2, 1])) \<and>
   split_targets [1, 2, 3] [2, 1] = map snd [example_long, example_short] \<and>
   split_targets [1, 2, 3::int] [2, 1] = [[1, 2], [3]]"
proof -
  obtain inputs where e: "fst (audio_seq_collate_fn no_junk [example_short, example_long]) =
      Inr (inputs, [1, 2, 3], [2, 1], [2, 1])"
    using example_eval(3) by blast
  from split_targets_roundtrip[of "[example_short, example_long]" no_junk] e
  have "split_targets [1, 2, 3] [2, 1] = map snd [example_long, example_short]"
    by (simp add: example_eval(2))
  then show ?thesis
    using e example_eval(1) by (auto simp: example_long_def example_short_def)
qed

text \<open>
  Claim C4. A valid non-empty batch is collated without an exception, and whenever
  \<open>audio_seq_collate_fn\<close> returns, the entries of \<open>target_sizes\<close> sum to the length of
  \<open>targets\<close>.
\<close>

theorem target_sizes_sum:
  "(valid_batch batch \<and> batch \<noteq> [] \<longrightarrow> (\<exists>out. fst (audio_seq_collate_fn junk batch) = Inr out)) \<and>
   (\<forall>inputs targets il ts.
      fst (audio_seq_collate_fn junk batch) = Inr (inputs, targets, il, ts) \<longrightarrow>
        sum_list ts = int (length targets))"
proof -
  have r: "valid_batch batch \<and> batch \<noteq> [] \<longrightarrow>
           (\<exists>out. fst (audio_seq_collate_fn junk batch) = Inr out)"
    using collate_valid_returns[of batch junk] by blast
  have l: "\<forall>inputs targets il ts.
      fst (audio_seq_collate_fn junk batch) = Inr (inputs, targets, il, ts) \<longrightarrow>
        sum_list ts = int (length targets)"
  proof (intro allI impI)
    fix inputs targets il ts
    assume "fst (audio_seq_collate_fn junk batch) = Inr (inputs, targets, il, ts)"
    from collate_returned_lists[OF this]
    show "sum_list ts = int (length targets)"
      by (simp add: sum_list_lengths)
  qed
  from r l show ?thesis by blast
qed

theorem target_sizes_sum_witness:
  "valid_batch [example_short, example_long] \<and> [example_short, example_long] \<noteq> [] \<and>
   (\<exists>inputs. fst (audio_seq_collate_fn no_junk [example_short, example_long]) =
      Inr (inputs, [1, 2, 3], [2, 1], [2, 1])) \<and>
   sum_list [2, 1] = int (length [1, 2, 3::int])"
proof -
  obtain inputs where e: "fst (audio_seq_collate_fn no_junk [example_short, example_long]) =
      Inr (inputs, [1, 2, 3], [2, 1], [2, 1])"
    using example_eval(3) by blast
  from target_sizes_sum[of "[example_short, example_long]" no_junk] e
  have "sum_list [2, 1] = int (length [1, 2, 3::int])" by blast
  then show ?thesis using e example_eval(1) by blast
qed

text \<open>
  Claim C5. For a valid non-empty batch of \<open>N\<close> samples the returned tensor has the shape
  \<open>(N, 1, feature_dim, max_frame_count)\<close>, both taken from the first sample of the sorted
  batch: the feature dimension all samples share and the largest frame count. For every
  sample \<open>i\<close> of the sorted batch, \<open>input_lengths[i]\<close> is its frame count, the cells of channel
  0 in the columns below its frame count are its frames, and the cells in the columns from
  its frame count on are zero.
\<close>

theorem collate_padded_tensor:
  assumes "valid_batch batch" and "batch \<noteq> []"
  shows "\<exists>inputs targets il ts.
           audio_seq_collate_fn junk batch = (Inr (inputs, targets, il, ts), sort_batch batch) \<and>
           shape inputs = (length batch, 1, size0 (fst (hd (sort_batch batch))),
                           frame_count (hd (sort_batch batch))) \<and>
           (\<forall>x\<in>set batch. size0 (fst x) = size0 (fst (hd (sort_batch batch))) \<and>
                            frame_count x \<le> frame_count (hd (sort_batch batch))) \<and>
           length il = length batch \<and>
           (\<forall>i<length batch.
              il ! i = int (frame_count (sort_batch batch ! i)) \<and>
              (\<forall>r<size0 (fst (hd (sort_batch batch))). \<forall>t.
                 (t < frame_count (sort_batch batch ! i) \<longrightarrow>
                    at4 inputs i 0 r t = at2 (fst (sort_batch batch ! i)) r t) \<and>
                 (frame_count (sort_batch batch ! i) \<le> t \<longrightarrow> at4 inputs i 0 r t = 0)))"
proof -
  let ?s = "sort_batch batch"
  obtain first rest where s: "?s = first # rest"
    using assms(2) sort_batch_length[of batch] by (cases ?s) auto
  have first: "first \<in> set batch" using s sort_batch_set[of batch] by auto
  have "hd batch \<in> set batch" using assms(2) by simp
  have v: "\<And>x. x \<in> set batch \<Longrightarrow> size0 (fst x) = size0 (fst (hd batch))"
    using assms(1) by (auto simp: valid_batch_def list_all_iff)
  have F: "size0 (fst (hd ?s)) = size0 (fst (hd batch))" using v[OF first] s by simp
  from collate_valid_returns[OF assms, of junk] obtain inputs targets il ts where
    ret: "fst (audio_seq_collate_fn junk batch) = Inr (inputs, targets, il, ts)"
    and sh: "shape inputs = (length batch, 1, size0 (fst (hd batch)), frame_count (hd ?s))"
    and cells: "\<And>i c r t. at4 inputs i c r t =
              (if i < length batch \<and> c = 0 \<and> r < size0 (fst (hd batch)) \<and>
                  t < frame_count (?s ! i)
               then at2 (fst (?s ! i)) r t else 0)"
    by blast
  have il: "il = map (\<lambda>x. int (frame_count x)) ?s"
    using collate_returned_lists[OF ret] by simp
  have a: "audio_seq_collate_fn junk batch = (Inr (inputs, targets, il, ts), ?s)"
    using ret collate_caller_list[of junk batch] by (simp add: prod_eq_iff)
  have b: "shape inputs = (length batch, 1, size0 (fst (hd ?s)), frame_count (hd ?s))"
    using sh F by simp
  have c: "\<forall>x\<in>set batch. size0 (fst x) = size0 (fst (hd ?s)) \<and>
                            frame_count x \<le> frame_count (hd ?s)"
    using v F sort_batch_first_longest[OF s] s by (simp add: frame_count_def)
  have d: "length il = length batch" using il by (simp add: sort_batch_length)
  have e: "\<forall>i<length batch.
              il ! i = int (frame_count (?s ! i)) \<and>
              (\<forall>r<size0 (fst (hd ?s)). \<forall>t.
                 (t < frame_count (?s ! i) \<longrightarrow> at4 inputs i 0 r t = at2 (fst (?s ! i)) r t) \<and>
                 (frame_count (?s ! i) \<le> t \<longrightarrow> at4 inputs i 0 r t = 0))"
    using il F by (simp add: cells sort_batch_length)
  from a b c d e show ?thesis by blast
qed

theorem collate_padded_tensor_witness:
  "valid_batch [example_short, example_long] \<and> [example_short, example_long] \<noteq> [] \<and>
   (\<exists>inputs targets il ts.
      audio_seq_collate_fn no_junk [example_short, example_long] =
        (Inr (inputs, targets, il, ts), [example_long, example_short]) \<and>
      shape inputs = (2, 1, 1, 2) \<and> il = [2, 1] \<and>
      at4 inputs 0 0 0 0 = 7 \<and> at4 inputs 0 0 0 1 = 8 \<and>
      at4 inputs 1 0 0 0 = 5 \<and> at4 inputs 1 0 0 1 = 0)"
proof -
  let ?s = "[example_long, example_short]"
  have s: "sort_batch [example_short, example_long] = ?s"
    using example_eval(2) by (simp add: collate_caller_list)
  have ne: "[example_short, example_long] \<noteq> []" by simp
  note t = collate_padded_tensor[OF example_eval(1) ne, of no_junk, unfolded s]
  then obtain inputs targets il ts where
    a: "audio_seq_collate_fn no_junk [example_short, example_long] =
        (Inr (inputs, targets, il, ts), ?s)"
    and b: "shape inputs = (length [example_short, example_long], 1, size0 (fst (hd ?s)),
                            frame_count (hd ?s))"
    and d: "length il = length [example_short, example_long]"
    and e: "\<forall>i<length [example_short, example_long].
              il ! i = int (frame_count (?s ! i)) \<and>
              (\<forall>r<size0 (fst (hd ?s)). \<forall>t.
                 (t < frame_count (?s ! i) \<longrightarrow>
                    at4 inputs i 0 r t = at2 (fst (?s ! i)) r t) \<and>
                 (frame_count (?s ! i) \<le> t \<longrightarrow> at4 inputs i 0 r t = 0))"
    by blast
  have fc: "frame_count example_long = 2" "frame_count example_short = 1"
    "size0 (fst example_long) = 1"
    by (simp_all add: frame_count_def example_long_def example_short_def)
  have b': "shape inputs = (2, 1, 1, 2)" using b fc by simp
  from e have "il ! 0 = int (frame_count (?s ! 0)) \<and>
              (\<forall>r<size0 (fst (hd ?s)). \<forall>t.
                 (t < frame_count (?s ! 0) \<longrightarrow>
                    at4 inputs 0 0 r t = at2 (fst (?s ! 0)) r t) \<and>
                 (frame_count (?s ! 0) \<le> t \<longrightarrow> at4 inputs 0 0 r t = 0))"
    by simp
  then have e0: "il ! 0 = 2" "at4 inputs 0 0 0 0 = 7" "at4 inputs 0 0 0 1 = 8"
    using fc by (simp_all add: example_long_def)
  from e have "il ! 1 = int (frame_count (?s ! 1)) \<and>
              (\<forall>r<size0 (fst (hd ?s)). \<forall>t.
                 (t < frame_count (?s ! 1) \<longrightarrow>
                    at4 inputs 1 0 r t = at2 (fst (?s ! 1)) r t) \<and>
                 (frame_count (?s ! 1) \<le> t \<longrightarrow> at4 inputs 1 0 r t = 0))"
    by simp
  then have e1: "il ! 1 = 1" "at4 inputs 1 0 0 0 = 5" "at4 inputs 1 0 0 1 = 0"
    using fc by (simp_all add: example_short_def)
  have "il = [2, 1]" using d e0(1) e1(1)
    by (cases il; cases "tl il") auto
  with a b' e0 e1 example_eval(1) show ?thesis by blast
qed

text \<open>
  The call sorts the list it is given in place: a caller that passes a one-frame sample
  followed by a two-frame sample finds them in the other order afterwards.
\<close>

theorem collate_mutates_callers_list_counterexample:
  "snd (audio_seq_collate_fn no_junk [example_short, example_long]) =
     [example_long, example_short] \<and>
   [example_long, example_short] \<noteq> [example_short, example_long]"
  by (simp add: example_eval(2)) (simp add: example_long_def example_short_def)

text \<open>
  Claim C6, as amended. \<open>audio_seq_collate_fn\<close> has one side effect on its argument: it sorts
  the caller's list in place. After the call, whether it returns or raises, the list holds
  the same samples, in non-increasing frame count, samples of equal frame count in their
  former relative order; it is left as it was exactly when it was already in non-increasing
  frame count order.
\<close>

theorem collate_sorts_callers_list:
  "mset (snd (audio_seq_collate_fn junk batch)) = mset batch \<and>
   sorted_wrt (\<lambda>a b. frame_count b \<le> frame_count a) (snd (audio_seq_collate_fn junk batch)) \<and>
   (\<forall>k. filter (\<lambda>x. frame_count x = k) (snd (audio_seq_collate_fn junk batch)) =
        filter (\<lambda>x. frame_count x = k) batch) \<and>
   (snd (audio_seq_collate_fn junk batch) = batch \<longleftrightarrow>
      sorted_wrt (\<lambda>a b. frame_count b \<le> frame_count a) batch)"
proof -
  have "sorted_wrt (\<lambda>a b. frame_count b \<le> frame_count a) batch \<Longrightarrow>
        snd (audio_seq_collate_fn junk batch) = batch"
    using sort_batch_id[of batch] by (simp add: collate_caller_list sorted_wrt_map)
  moreover have "snd (audio_seq_collate_fn junk batch) = batch \<Longrightarrow>
        sorted_wrt (\<lambda>a b. frame_count b \<le> frame_count a) batch"
    using collate_caller_list_props[of junk batch] by simp
  ultimately show ?thesis using collate_caller_list_props[of junk batch] by blast
qed

theorem collate_sorts_callers_list_witness:
  "sorted_wrt (\<lambda>a b. frame_count b \<le> frame_count a) [example_long, example_short] \<and>
   snd (audio_seq_collate_fn no_junk [example_long, example_short]) =
     [example_long, example_short] \<and>
   mset (snd (audio_seq_collate_fn no_junk [example_short, example_long])) =
     mset [example_short, example_long]"
proof -
  have s: "sorted_wrt (\<lambda>a b. frame_count b \<le> frame_count a) [example_long, example_short]"
    by (simp add: frame_count_def example_long_def example_short_def)
  from collate_sorts_callers_list[of no_junk "[example_long, example_short]"] s
  have "snd (audio_seq_collate_fn no_junk [example_long, example_short]) =
     [example_long, example_short]"
    by blast
  moreover from collate_sorts_callers_list[of no_junk "[example_short, example_long]"]
  have "mset (snd (audio_seq_collate_fn no_junk [example_short, example_long])) =
     mset [example_short, example_long]"
    by blast
  ultimately show ?thesis using s by blast
qed

section \<open>Properties of BucketingSampler\<close>

lemma py_slice_chunk:
  assumes "0 < bs"
  shows "py_slice xs (int i) (int i + bs) = take (nat bs) (drop i xs)"
proof (cases "i \<le> length xs")
  case True
  have "take (nat (min (int i + bs) (int (length xs)) - int i)) (drop i xs) =
        take (nat bs) (drop i xs)"
  proof (cases "int i + bs \<le> int (length xs)")
    case True
    then show ?thesis by (simp add: min_def)
  next
    case False
    then have "length (drop i xs) \<le> nat bs" "length (drop i xs) \<le> nat (int (length xs) - int i)"
      by auto
    then show ?thesis using False by (simp add: min_def)
  qed
  then show ?thesis using True assms by (simp add: py_slice_def Let_def min_def)
next
  case False
  then show ?thesis using assms by (simp add: py_slice_def Let_def min_def)
qed

lemma concat_chunks:
  "concat (map (\<lambda>k. take b (drop (k * b) xs)) [0..<m]) = take (m * b) xs"
proof (induction m)
  case 0
  show ?case by simp
next
  case (Suc m)
  have "take (m * b) xs @ take b (drop (m * b) xs) = take (m * b + b) xs"
    by (simp add: take_add)
  then show ?case using Suc by (simp add: add.commute)
qed

lemma ceil_div_covers:
  assumes "0 < (b::nat)"
  shows "n \<le> ((n + b - 1) div b) * b"
proof -
  have "(n + b - 1) mod b < b" using assms by simp
  moreover have "(n + b - 1) = ((n + b - 1) div b) * b + (n + b - 1) mod b" by simp
  ultimately show ?thesis by linarith
qed

lemma ceil_div_tight:
  assumes "0 < (b::nat)" and "Suc k < (n + b - 1) div b"
  shows "Suc k * b < n"
proof -
  have "Suc (Suc k) \<le> (n + b - 1) div b" using assms(2) by simp
  then have "Suc (Suc k) * b \<le> ((n + b - 1) div b) * b" by (rule mult_le_mono1)
  also have "\<dots> \<le> n + b - 1" by simp
  finally have "Suc k * b + b \<le> n + b - 1" by simp
  then show ?thesis using assms(1) by linarith
qed

lemma ceil_div_last:
  assumes "0 < (b::nat)" and "k < (n + b - 1) div b"
  shows "k * b < n"
proof -
  have "Suc k \<le> (n + b - 1) div b" using assms(2) by simp
  then have "Suc k * b \<le> ((n + b - 1) div b) * b" by (rule mult_le_mono1)
  also have "\<dots> \<le> n + b - 1" by simp
  finally have "k * b + b \<le> n + b - 1" by simp
  then show ?thesis using assms(1) by linarith
qed

lemma init_chunks:
  assumes "1 \<le> batch_size"
  shows "BucketingSampler_init (Inr (int n)) batch_size = Inr (chunks n (nat batch_size))"
  using assms
  by (simp add: BucketingSampler_init_def py_len_def py_range0_def Let_def py_slice_chunk
      chunks_def comp_def)

lemma chunks_concat: "0 < b \<Longrightarrow> concat (chunks n b) = [0..<n]"
proof -
  assume "0 < b"
  then have "length [0..<n] \<le> ((n + b - 1) div b) * b"
    using ceil_div_covers[of b n] by simp
  then have "take (((n + b - 1) div b) * b) [0..<n] = [0..<n]"
    by (rule take_all)
  then show ?thesis
    unfolding chunks_def concat_chunks .
qed

lemma chunks_length: "length (chunks n b) = (n + b - 1) div b"
  by (simp add: chunks_def)

lemma chunks_full:
  assumes "0 < b" and "Suc k < length (chunks n b)"
  shows "length (chunks n b ! k) = b"
proof -
  have "Suc k * b < n" using ceil_div_tight[OF assms(1)] assms(2) by (simp add: chunks_length)
  then have "k * b + b \<le> n" by simp
  then show ?thesis using assms(2) by (simp add: chunks_def)
qed

lemma chunks_sizes:
  assumes "0 < b" and "c \<in> set (chunks n b)"
  shows "1 \<le> length c \<and> length c \<le> b"
proof -
  from assms(2) obtain k where k: "k < (n + b - 1) div b" "c = take b (drop (k * b) [0..<n])"
    by (auto simp: chunks_def)
  have "k * b < n" using ceil_div_last[OF assms(1) k(1)] .
  then show ?thesis using k(2) assms(1) by simp
qed

lemma shuffle_loop_mset:
  "k < length x \<Longrightarrow> mset (fst (shuffle_loop draw k x g)) = mset x"
proof (induction k arbitrary: x g)
  case 0
  show ?case by simp
next
  case (Suc k)
  let ?j = "fst (draw g) mod (Suc k + 1)"
  have "?j < Suc k + 1" by (rule mod_less_divisor) simp
  then have j: "?j < length x" using Suc.prems by linarith
  have sw: "mset (x[Suc k := x ! ?j, ?j := x ! Suc k]) = mset x"
    using mset_swap[OF j Suc.prems] .
  have "k < length (x[Suc k := x ! ?j, ?j := x ! Suc k])" using Suc.prems by simp
  from Suc.IH[OF this] sw show ?case
    by (simp add: rk_interval_def Let_def)
qed

lemma shuffle_loop_generator:
  "snd (shuffle_loop draw k x g) = ((\<lambda>s. snd (draw s)) ^^ k) g"
proof (induction k arbitrary: x g)
  case 0
  show ?case by simp
next
  case (Suc k)
  have sw: "((\<lambda>s. snd (draw s)) ^^ k) (snd (draw g)) =
            snd (draw (((\<lambda>s. snd (draw s)) ^^ k) g))"
    using funpow_swap1[of "\<lambda>s. snd (draw s)" k g] by simp
  show ?case
    using sw by (simp add: rk_interval_def Let_def Suc)
qed

lemma np_random_shuffle_mset: "mset (fst (np_random_shuffle draw x g)) = mset x"
proof (cases x)
  case Nil
  then show ?thesis by (simp add: np_random_shuffle_def)
next
  case (Cons a xs)
  then have "length x - 1 < length x" by simp
  then show ?thesis unfolding np_random_shuffle_def by (rule shuffle_loop_mset)
qed

lemma np_random_shuffle_generator:
  "snd (np_random_shuffle draw x g) = ((\<lambda>s. snd (draw s)) ^^ (length x - 1)) g"
  by (simp add: np_random_shuffle_def shuffle_loop_generator)

lemma iter_next_buckets:
  assumes "iter_next draw k (bins, g) = Some (ids, bins', g')"
  shows "k < length bins \<and> bins' = bins[k := ids] \<and> mset ids = mset (bins ! k) \<and>
         map mset bins' = map mset bins \<and>
         g' = ((\<lambda>s. snd (draw s)) ^^ (length (bins ! k) - 1)) g"
proof -
  from assms have k: "k < length bins"
    and r: "np_random_shuffle draw (bins ! k) g = (ids, g')" and b: "bins' = bins[k := ids]"
    by (auto simp: iter_next_def split: if_splits prod.splits)
  have m: "mset ids = mset (bins ! k)"
    using np_random_shuffle_mset[of draw "bins ! k" g] r by simp
  have "map mset bins' = (map mset bins)[k := mset (bins ! k)]"
    using b m by (simp add: map_update)
  then have mm: "map mset bins' = map mset bins"
    using k by (simp add: list_update_same_conv)
  have "g' = ((\<lambda>s. snd (draw s)) ^^ (length (bins ! k) - 1)) g"
    using np_random_shuffle_generator[of draw "bins ! k" g] r by simp
  with k b m mm show ?thesis by blast
qed

lemma shuffle_buckets:
  "mset (fst (BucketingSampler_shuffle draw (bins, g))) = mset bins"
  by (simp add: BucketingSampler_shuffle_def np_random_shuffle_mset)

lemma reachable_buckets:
  assumes "reachable draw len_data_source batch_size w"
    and "BucketingSampler_init len_data_source batch_size = Inr bins0"
  shows "mset (map mset (fst w)) = mset (map mset bins0)"
  using assms
proof (induction rule: reachable.induct)
  case (constructed bins g)
  then show ?case by simp
next
  case (iterated w k ids w')
  obtain bins g where w: "w = (bins, g)" by (cases w)
  obtain bins' g' where w': "w' = (bins', g')" by (cases w')
  from iter_next_buckets[OF iterated.hyps(2)[unfolded w w']]
  have "map mset bins' = map mset bins" by blast
  then have "mset (map mset bins') = mset (map mset bins)" by (simp only:)
  with iterated.IH[OF iterated.prems] show ?case by (simp only: w w' fst_conv)
next
  case (shuffled w)
  obtain bins g where w: "w = (bins, g)" by (cases w)
  have "mset (map mset (fst (BucketingSampler_shuffle draw w))) =
        image_mset mset (mset (fst (BucketingSampler_shuffle draw (bins, g))))"
    by (simp add: w)
  also have "\<dots> = mset (map mset bins)" by (simp add: shuffle_buckets)
  finally show ?case using shuffled.IH[OF shuffled.prems] by (simp add: w)
next
  case (reseeded bins g g')
  then show ?case by simp
qed

lemma same_buckets_partition:
  assumes "mset (map mset bins) = mset (map mset bins0)" and "concat bins0 = [0..<n]"
  shows "distinct (concat bins) \<and> set (concat bins) = {0..<n} \<and>
         sum_list (map length bins) = n"
proof -
  have c: "mset (concat xss) = sum_mset (mset (map mset xss))" for xss :: "nat list list"
    by (induction xss) auto
  have "mset (concat bins) = mset (concat bins0)" using assms(1) by (simp only: c)
  then have m: "mset (concat bins) = mset [0..<n]" using assms(2) by simp
  have d: "distinct (concat bins)" using m by (metis distinct_upt mset_eq_imp_distinct_iff)
  have s: "set (concat bins) = {0..<n}" using m by (metis mset_eq_setD set_upt)
  have "length (concat bins) = n" using m by (metis mset_eq_length length_upt diff_zero)
  then have "sum_list (map length bins) = n" by (simp add: length_concat)
  with d s show ?thesis by blast
qed

lemma iter_from_pass:
  "iter_from draw k (bins, g) = (ys, bins', g') \<Longrightarrow>
   map mset bins' = map mset bins \<and> take k bins' = take k bins \<and> ys = drop k bins' \<and>
   g' = ((\<lambda>s. snd (draw s)) ^^ (sum_list (map (\<lambda>b. length b - 1) (drop k bins)))) g"
proof (induction "length bins - k" arbitrary: k bins g ys bins' g')
  case 0
  then have "iter_next draw k (bins, g) = None" by (simp add: iter_next_def)
  with "0.prems" have "ys = []" "bins' = bins" "g' = g" by (simp_all add: iter_from.simps)
  then show ?case using 0 by simp
next
  case (Suc m)
  then have k: "k < length bins" by simp
  obtain ids g1 where sh: "np_random_shuffle draw (bins ! k) g = (ids, g1)"
    by (cases "np_random_shuffle draw (bins ! k) g")
  have nx: "iter_next draw k (bins, g) = Some (ids, bins[k := ids], g1)"
    using k sh by (simp add: iter_next_def)
  note st = iter_next_buckets[OF nx]
  obtain ys1 where rec: "iter_from draw (Suc k) (bins[k := ids], g1) = (ys1, bins', g')"
    and ys: "ys = ids # ys1"
    using Suc.prems nx by (subst (asm) iter_from.simps) (auto split: prod.splits)
  have "m = length (bins[k := ids]) - Suc k" using Suc.hyps(2) by simp
  from Suc.hyps(1)[OF this rec]
  have ih: "map mset bins' = map mset (bins[k := ids])"
    "take (Suc k) bins' = take (Suc k) (bins[k := ids])" "ys1 = drop (Suc k) bins'"
    "g' = ((\<lambda>s. snd (draw s)) ^^
             (sum_list (map (\<lambda>b. length b - 1) (drop (Suc k) (bins[k := ids]))))) g1"
    by auto
  have len: "length bins' = length bins" using ih(1) by (metis length_map length_list_update)
  have a: "map mset bins' = map mset bins" using ih(1) st by simp
  have "take k (take (Suc k) bins') = take k (take (Suc k) (bins[k := ids]))"
    using ih(2) by simp
  then have b: "take k bins' = take k bins" by (simp add: min_def)
  have "bins' ! k = (take (Suc k) bins') ! k" by simp
  also have "\<dots> = ids" using ih(2) k by simp
  finally have "bins' ! k = ids" .
  moreover have "bins' ! k # drop (Suc k) bins' = drop k bins'"
    using k len by (simp add: Cons_nth_drop_Suc)
  ultimately have c: "ys = drop k bins'"
    using ys ih(3) by (simp only:)
  have "drop k bins = bins ! k # drop (Suc k) bins" using k by (simp add: Cons_nth_drop_Suc)
  then have "sum_list (map (\<lambda>b. length b - 1) (drop k bins)) =
             sum_list (map (\<lambda>b. length b - 1) (drop (Suc k) bins)) + (length (bins ! k) - 1)"
    by simp
  moreover have "g1 = ((\<lambda>s. snd (draw s)) ^^ (length (bins ! k) - 1)) g" using st by simp
  ultimately have d: "g' = ((\<lambda>s. snd (draw s)) ^^
                      (sum_list (map (\<lambda>b. length b - 1) (drop k bins)))) g"
    using ih(4) by (simp add: funpow_add)
  from a b c d show ?case by blast
qed

lemma iter_pass:
  "BucketingSampler_iter draw (bins, g) = (ys, bins', g') \<Longrightarrow>
   ys = bins' \<and> map mset bins' = map mset bins \<and>
   g' = ((\<lambda>s. snd (draw s)) ^^ (sum_list (map (\<lambda>b. length b - 1) bins))) g"
  using iter_from_pass[of draw 0 bins g ys bins' g'] by (simp add: BucketingSampler_iter_def)

lemma iter_from_reachable:
  "reachable draw l b (bins, g) \<Longrightarrow> reachable draw l b (snd (iter_from draw k (bins, g)))"
proof (induction "length bins - k" arbitrary: k bins g)
  case 0
  then have "iter_next draw k (bins, g) = None" by (simp add: iter_next_def)
  then have "iter_from draw k (bins, g) = ([], bins, g)" by (simp add: iter_from.simps)
  then show ?case using "0.prems" by simp
next
  case (Suc m)
  then have k: "k < length bins" by simp
  obtain ids g1 where sh: "np_random_shuffle draw (bins ! k) g = (ids, g1)"
    by (cases "np_random_shuffle draw (bins ! k) g")
  have nx: "iter_next draw k (bins, g) = Some (ids, bins[k := ids], g1)"
    using k sh by (simp add: iter_next_def)
  have r1: "reachable draw l b (bins[k := ids], g1)"
    using Suc.prems nx by (rule reachable.iterated)
  have "m = length (bins[k := ids]) - Suc k" using Suc.hyps(2) by simp
  from Suc.hyps(1)[OF this r1]
  have "reachable draw l b (snd (iter_from draw (Suc k) (bins[k := ids], g1)))" .
  moreover have "snd (iter_from draw k (bins, g)) =
                 snd (iter_from draw (Suc k) (bins[k := ids], g1))"
    using nx by (subst iter_from.simps) (simp split: prod.splits)
  ultimately show ?case by simp
qed

lemma example_init: "BucketingSampler_init (Inr 5) 2 = Inr [[0, 1], [2, 3], [4]]"
  by code_simp

lemma example_init2: "BucketingSampler_init (Inr 2) 2 = Inr [[0, 1]]"
  by code_simp

lemma example_next:
  "iter_next counter_draw 0 ([[0, 1], [2, 3], [4]], 0) = Some ([1, 0], [[1, 0], [2, 3], [4]], 1)"
  by code_simp

lemma example_iter:
  "BucketingSampler_iter counter_draw ([[0, 1]], 0) = ([[1, 0]], [[1, 0]], 1)"
  "BucketingSampler_iter counter_draw ([[0, 1]], 1) = ([[0, 1]], [[0, 1]], 2)"
  by code_simp+

text \<open>
  Claim C2. For every dataset size \<open>n\<close> and every batch size of at least 1, the construction
  succeeds with buckets whose concatenation is \<open>[0, ..., n - 1]\<close>, every bucket but the last
  of exactly \<open>batch_size\<close> indices and every bucket of between 1 and \<open>batch_size\<close>. In every
  world the sampler can reach by steps of iteration passes and calls of \<open>shuffle\<close>, the
  buckets are the constructed ones up to the order of the buckets and the order within each
  bucket: every index below \<open>n\<close> is in exactly one bucket exactly once and the sizes sum to
  \<open>n\<close>. A full pass yields the buckets in their current order, each permuted, and a call of
  \<open>shuffle\<close> permutes the buckets; both lead to a reachable world again.
\<close>

theorem buckets_partition:
  assumes "1 \<le> batch_size" and "reachable draw (Inr (int n)) batch_size (bins, g)"
  shows "\<exists>bins0. BucketingSampler_init (Inr (int n)) batch_size = Inr bins0 \<and>
           concat bins0 = [0..<n] \<and>
           (\<forall>k. Suc k < length bins0 \<longrightarrow> length (bins0 ! k) = nat batch_size) \<and>
           (\<forall>c\<in>set bins0. 1 \<le> length c \<and> length c \<le> nat batch_size) \<and>
           mset (map mset bins) = mset (map mset bins0) \<and>
           distinct (concat bins) \<and> set (concat bins) = {0..<n} \<and>
           sum_list (map length bins) = n \<and>
           fst (BucketingSampler_iter draw (bins, g)) =
             fst (snd (BucketingSampler_iter draw (bins, g))) \<and>
           map mset (fst (BucketingSampler_iter draw (bins, g))) = map mset bins \<and>
           reachable draw (Inr (int n)) batch_size (snd (BucketingSampler_iter draw (bins, g))) \<and>
           mset (fst (BucketingSampler_shuffle draw (bins, g))) = mset bins \<and>
           reachable draw (Inr (int n)) batch_size (BucketingSampler_shuffle draw (bins, g))"
proof -
  let ?b = "nat batch_size"
  let ?bins0 = "chunks n ?b"
  have b: "0 < ?b" using assms(1) by simp
  have i: "BucketingSampler_init (Inr (int n)) batch_size = Inr ?bins0"
    using assms(1) by (rule init_chunks)
  have c: "concat ?bins0 = [0..<n]" using b by (rule chunks_concat)
  have f: "\<forall>k. Suc k < length ?bins0 \<longrightarrow> length (?bins0 ! k) = ?b"
    using chunks_full[OF b] by blast
  have s: "\<forall>c\<in>set ?bins0. 1 \<le> length c \<and> length c \<le> ?b"
    using chunks_sizes[OF b] by blast
  have m: "mset (map mset bins) = mset (map mset ?bins0)"
    using reachable_buckets[OF assms(2) i] by simp
  note p = same_buckets_partition[OF m c]
  obtain ys bins' g' where it: "BucketingSampler_iter draw (bins, g) = (ys, bins', g')"
    by (cases "BucketingSampler_iter draw (bins, g)") auto
  from iter_pass[OF it] have y: "ys = bins'" "map mset bins' = map mset bins" by auto
  have y1: "fst (BucketingSampler_iter draw (bins, g)) =
             fst (snd (BucketingSampler_iter draw (bins, g)))"
    using it y by simp
  have y2: "map mset (fst (BucketingSampler_iter draw (bins, g))) = map mset bins"
    using it y by simp
  have r1: "reachable draw (Inr (int n)) batch_size (snd (BucketingSampler_iter draw (bins, g)))"
    unfolding BucketingSampler_iter_def using assms(2) by (rule iter_from_reachable)
  have sh: "mset (fst (BucketingSampler_shuffle draw (bins, g))) = mset bins"
    by (rule shuffle_buckets)
  have r2: "reachable draw (Inr (int n)) batch_size (BucketingSampler_shuffle draw (bins, g))"
    using assms(2) by (rule reachable.shuffled)
  from i c f s m p y1 y2 r1 sh r2 show ?thesis by blast
qed

theorem buckets_partition_witness:
  "(1::int) \<le> 2 \<and>
   reachable counter_draw (Inr (int 5)) 2 ([[1, 0], [2, 3], [4]], 1) \<and>
   BucketingSampler_init (Inr (int 5)) 2 = Inr [[0, 1], [2, 3], [4]] \<and>
   distinct (concat [[1, 0], [2, 3], [4::nat]]) \<and>
   set (concat [[1, 0], [2, 3], [4::nat]]) = {0..<5} \<and>
   sum_list (map length [[1, 0], [2, 3], [4::nat]]) = 5"
proof -
  have i: "BucketingSampler_init (Inr (int 5)) 2 = Inr [[0, 1], [2, 3], [4]]"
    using example_init by simp
  have r0: "reachable counter_draw (Inr (int 5)) 2 ([[0, 1], [2, 3], [4]], 0)"
    using i by (rule reachable.constructed)
  have r: "reachable counter_draw (Inr (int 5)) 2 ([[1, 0], [2, 3], [4]], 1)"
    using r0 example_next by (rule reachable.iterated)
  have h: "(1::int) \<le> 2" by simp
  from buckets_partition[OF h r]
  have "distinct (concat [[1, 0], [2, 3], [4::nat]]) \<and>
        set (concat [[1, 0], [2, 3], [4::nat]]) = {0..<5} \<and>
        sum_list (map length [[1, 0], [2, 3], [4::nat]]) = 5"
    by blast
  with h r i show ?thesis by blast
qed

text \<open>
  The sampler has no random source of its own: two samplers constructed alike and iterated
  one after the other draw from the one process-wide generator, and the second pass starts
  where the first left it. With the counting generator in state 0 the first sampler yields
  \<open>[[1, 0]]\<close> and the second \<open>[[0, 1]]\<close>.
\<close>

theorem iter_shared_generator_counterexample:
  "BucketingSampler_init (Inr 2) 2 = Inr [[0, 1]] \<and>
   BucketingSampler_iter counter_draw ([[0, 1]], 0) = ([[1, 0]], [[1, 0]], 1) \<and>
   BucketingSampler_iter counter_draw ([[0, 1]], 1) = ([[0, 1]], [[0, 1]], 2) \<and>
   [[1, 0]] \<noteq> [[0, 1::nat]]"
  using example_init2 example_iter by simp

text \<open>
  Claim C8, as amended. The shuffling draws from NumPy's process-wide generator, which the
  sampler neither receives nor seeds. A pass is a function of the bins and of the state of
  that generator when the pass starts: passes over samplers constructed alike, started in
  the same generator state, yield the same sequence of buckets and leave the same world.
  The pass yields the buckets in order, each a permutation of what it was, and advances the
  generator by one draw for every index of a bucket beyond its first.
\<close>

theorem iter_determined_by_generator_state:
  "(BucketingSampler_init len_data_source batch_size = Inr a \<and>
    BucketingSampler_init len_data_source batch_size = Inr b \<longrightarrow>
      BucketingSampler_iter draw (a, g) = BucketingSampler_iter draw (b, g)) \<and>
   fst (BucketingSampler_iter draw (bins, g)) = fst (snd (BucketingSampler_iter draw (bins, g))) \<and>
   map mset (fst (BucketingSampler_iter draw (bins, g))) = map mset bins \<and>
   snd (snd (BucketingSampler_iter draw (bins, g))) =
     ((\<lambda>s. snd (draw s)) ^^ (sum_list (map (\<lambda>c. length c - 1) bins))) g"
proof -
  obtain ys bins' g' where it: "BucketingSampler_iter draw (bins, g) = (ys, bins', g')"
    by (cases "BucketingSampler_iter draw (bins, g)") auto
  from iter_pass[OF it] it show ?thesis by auto
qed

theorem iter_determined_by_generator_state_witness:
  "BucketingSampler_init (Inr 2) 2 = Inr [[0, 1]] \<and>
   BucketingSampler_iter counter_draw ([[0, 1]], 0) = ([[1, 0]], [[1, 0]], 1) \<and>
   ((\<lambda>s. snd (counter_draw s)) ^^ (sum_list (map (\<lambda>c. length c - 1) [[0, 1::nat]]))) 0 = 1"
proof -
  have e: "snd (snd (BucketingSampler_iter counter_draw ([[0, 1]], 0))) = 1"
    by (simp only: example_iter(1) snd_conv)
  from iter_determined_by_generator_state[of "Inr 2" 2 "[[0, 1]]" "[[0, 1]]" counter_draw 0
      "[[0, 1]]"]
  have t: "snd (snd (BucketingSampler_iter counter_draw ([[0, 1]], 0))) =
        ((\<lambda>s. snd (counter_draw s)) ^^ (sum_list (map (\<lambda>c. length c - 1) [[0, 1::nat]]))) 0"
    by blast
  have "((\<lambda>s. snd (counter_draw s)) ^^ (sum_list (map (\<lambda>c. length c - 1) [[0, 1::nat]]))) 0 = 1"
    using t e by (simp only:)
  with example_init2 example_iter(1) show ?thesis by blast
qed

end
